theory Spec2Isabelle
  imports Main "HOL-Library.Word" "HOL-Library.Signed_Division"
begin

section \<open>Machine integers\<close>

text \<open>
  The sample \<^verbatim>\<open>samples/api/get_depth_with_region.cc\<close> computes with \<^verbatim>\<open>int\<close>
  (mouse coordinates, loop counters, image sizes), \<^verbatim>\<open>std::uint32_t\<close> (the region
  radius \<^verbatim>\<open>n_\<close>) and \<^verbatim>\<open>ushort\<close> (a depth sample). They are words of 32, 32 and 16
  bits here. An \<^verbatim>\<open>int\<close> is read with \<open>sint\<close> (two's complement), an unsigned value
  with \<open>uint\<close>. Mixed arithmetic such as \<^verbatim>\<open>point_.x - n_\<close> is done by C++ in
  \<^verbatim>\<open>std::uint32_t\<close> and converted back to \<^verbatim>\<open>int\<close>, which is the word operation read
  with \<open>sint\<close>. Arithmetic on \<^verbatim>\<open>int\<close> alone is modelled with the same wrap-around.
\<close>

type_synonym cint = "32 word"
type_synonym uint32 = "32 word"
type_synonym ushort = "16 word"

text \<open>Division of \<^verbatim>\<open>int\<close> by \<^verbatim>\<open>int\<close> truncates towards zero.\<close>

definition cdiv :: "cint \<Rightarrow> cint \<Rightarrow> cint" where
  "cdiv a b = word_of_int (sint a sdiv sint b)"

section \<open>The region selector: class DepthRegion\<close>

text \<open>\<^verbatim>\<open>cv::Point\<close>: a pair of \<^verbatim>\<open>int\<close> coordinates.\<close>

record Point =
  pt_x :: cint
  pt_y :: cint

text \<open>
  The private members \<^verbatim>\<open>n_\<close>, \<^verbatim>\<open>show_\<close>, \<^verbatim>\<open>selected_\<close> and \<^verbatim>\<open>point_\<close> of
  \<^verbatim>\<open>DepthRegion\<close> (an identifier cannot end with an underscore here, hence the prefix).
\<close>

record DepthRegion =
  dr_n :: uint32
  dr_show :: bool
  dr_selected :: bool
  dr_point :: Point

text \<open>The constructor \<^verbatim>\<open>DepthRegion(n)\<close>.\<close>

definition DepthRegion_new :: "uint32 \<Rightarrow> DepthRegion" where
  "DepthRegion_new n =
     \<lparr>dr_n = n, dr_show = False, dr_selected = False, dr_point = \<lparr>pt_x = 0, pt_y = 0\<rparr>\<rparr>"

text \<open>The two OpenCV event codes the callback looks at, with the values of OpenCV's header.\<close>

definition CV_EVENT_MOUSEMOVE :: cint where
  "CV_EVENT_MOUSEMOVE = 0"

definition CV_EVENT_LBUTTONDOWN :: cint where
  "CV_EVENT_LBUTTONDOWN = 1"

text \<open>
  \<^verbatim>\<open>DepthRegion::OnMouse\<close>. The state is passed in and returned. The assignment of
  \<^verbatim>\<open>point_\<close> at the end of the button-down branch is outside the test of \<^verbatim>\<open>selected_\<close>,
  as in the source.
\<close>

definition OnMouse :: "cint \<Rightarrow> cint \<Rightarrow> cint \<Rightarrow> cint \<Rightarrow> DepthRegion \<Rightarrow> DepthRegion" where
  "OnMouse event x y flags s =
    (if event \<noteq> CV_EVENT_MOUSEMOVE \<and> event \<noteq> CV_EVENT_LBUTTONDOWN then s
     else
       let s1 = s\<lparr>dr_show := True\<rparr> in
       if event = CV_EVENT_MOUSEMOVE then
         (if \<not> dr_selected s1 then s1\<lparr>dr_point := \<lparr>pt_x = x, pt_y = y\<rparr>\<rparr> else s1)
       else if event = CV_EVENT_LBUTTONDOWN then
         (let s2 =
            (if dr_selected s1 then
               (if sint (pt_x (dr_point s1) - dr_n s1) \<le> sint x \<and>
                   sint x \<le> sint (pt_x (dr_point s1) + dr_n s1) \<and>
                   sint (pt_y (dr_point s1) - dr_n s1) \<le> sint y \<and>
                   sint y \<le> sint (pt_y (dr_point s1) + dr_n s1)
                then s1\<lparr>dr_selected := False\<rparr>
                else s1)
             else s1\<lparr>dr_selected := True\<rparr>)
          in s2\<lparr>dr_point := \<lparr>pt_x = x, pt_y = y\<rparr>\<rparr>)
       else s1)"

text \<open>\<^verbatim>\<open>OnDepthMouseCallback\<close> forwards to the region behind \<^verbatim>\<open>userdata\<close>.\<close>

definition OnDepthMouseCallback :: "cint \<Rightarrow> cint \<Rightarrow> cint \<Rightarrow> cint \<Rightarrow> DepthRegion \<Rightarrow> DepthRegion" where
  "OnDepthMouseCallback event x y flags region = OnMouse event x y flags region"

text \<open>
  A mouse event as the window system delivers it: event code, x, y, flags. A session
  delivers a sequence of them to the same region, first event first.
\<close>

type_synonym mouse_event = "cint \<times> cint \<times> cint \<times> cint"

fun deliver :: "mouse_event list \<Rightarrow> DepthRegion \<Rightarrow> DepthRegion" where
  "deliver [] s = s"
| "deliver ((event, x, y, flags) # evs) s = deliver evs (OnDepthMouseCallback event x y flags s)"

definition ev_kind :: "mouse_event \<Rightarrow> cint" where
  "ev_kind ev = fst ev"

definition ev_point :: "mouse_event \<Rightarrow> Point" where
  "ev_point ev = \<lparr>pt_x = fst (snd ev), pt_y = fst (snd (snd ev))\<rparr>"

section \<open>Images and drawing\<close>

text \<open>
  \<^verbatim>\<open>cv::Scalar(b, g, r)\<close> and \<^verbatim>\<open>cv::Size\<close>. A \<^verbatim>\<open>cv::Mat\<close> is its size, its stored
  elements (by row and column) and the drawing calls applied to it, in order. OpenCV's
  rasterisation of a drawing call is not part of this repository: \<^verbatim>\<open>cv::putText\<close> and
  \<^verbatim>\<open>cv::rectangle\<close> append the call with its arguments, and \<^verbatim>\<open>cv::getTextSize\<close> is a
  parameter of the renderer (a function of the text; font, scale and thickness are the
  constants of the call).
\<close>

type_synonym Scalar = "nat \<times> nat \<times> nat"

record Size =
  width :: cint
  height :: cint

datatype draw =
    PutText string Point cint nat Scalar cint
  | Rectangle Point Point Scalar cint

record 'a Mat =
  rows :: cint
  cols :: cint
  elems :: "cint \<Rightarrow> cint \<Rightarrow> 'a"
  drawn :: "draw list"

text \<open>\<^verbatim>\<open>cv::Mat(rows, cols, type, s)\<close>: every element is \<open>s\<close>.\<close>

definition Mat_new :: "cint \<Rightarrow> cint \<Rightarrow> 'a \<Rightarrow> 'a Mat" where
  "Mat_new r c v = \<lparr>rows = r, cols = c, elems = (\<lambda>_ _. v), drawn = []\<rparr>"

text \<open>
  \<^verbatim>\<open>cv::Mat::at<T>(i0, i1)\<close> (row, column) is defined inside the matrix only. An access
  outside it is the error \<open>OutOfRange\<close>.
\<close>

datatype error = OutOfRange

definition Mat_at :: "'a Mat \<Rightarrow> cint \<Rightarrow> cint \<Rightarrow> error + 'a" where
  "Mat_at m i0 i1 =
     (if 0 \<le> sint i0 \<and> sint i0 < sint (rows m) \<and> 0 \<le> sint i1 \<and> sint i1 < sint (cols m)
      then Inr (elems m i0 i1) else Inl OutOfRange)"

definition putText :: "'a Mat \<Rightarrow> string \<Rightarrow> Point \<Rightarrow> cint \<Rightarrow> nat \<Rightarrow> Scalar \<Rightarrow> cint \<Rightarrow> 'a Mat" where
  "putText img text org fontFace fontScale color thickness =
     img\<lparr>drawn := drawn img @ [PutText text org fontFace fontScale color thickness]\<rparr>"

definition rectangle :: "'a Mat \<Rightarrow> Point \<Rightarrow> Point \<Rightarrow> Scalar \<Rightarrow> cint \<Rightarrow> 'a Mat" where
  "rectangle img pt1 pt2 color thickness =
     img\<lparr>drawn := drawn img @ [Rectangle pt1 pt2 color thickness]\<rparr>"

definition FONT_HERSHEY_PLAIN :: cint where
  "FONT_HERSHEY_PLAIN = 1"

section \<open>The grid renderer: DepthRegion::ShowElems\<close>

text \<open>
  The loop \<^verbatim>\<open>for (int i = a; i <= n; ++i) body\<close>, with \<open>acc\<close> what the body updates. A
  \<^verbatim>\<open>continue\<close> in the body is a body that returns its state unchanged. The result is
  \<open>None\<close> when the loop does not return, \<open>Some (Inl e)\<close> when the body fails with \<open>e\<close>,
  and \<open>Some (Inr acc)\<close> when the loop ends in state \<open>acc\<close>. With \<open>n\<close> the largest
  \<^verbatim>\<open>int\<close>, the test \<^verbatim>\<open>i <= n\<close> never fails.
\<close>

partial_function (option) for_loop ::
  "(cint \<Rightarrow> 'a \<Rightarrow> (error + 'a) option) \<Rightarrow> cint \<Rightarrow> cint \<Rightarrow> 'a \<Rightarrow> (error + 'a) option" where
  "for_loop body i n acc =
     (if sint i \<le> sint n then
        (case body i acc of
           None \<Rightarrow> None
         | Some (Inl e) \<Rightarrow> Some (Inl e)
         | Some (Inr acc') \<Rightarrow> for_loop body (i + 1) n acc')
      else Some (Inr acc))"

text \<open>
  The body of the inner loop of \<^verbatim>\<open>ShowElems\<close> (lines 87 to 104), for the column \<open>x\<close> of
  the offset \<open>i\<close> and the offset \<open>j\<close>: the canvas \<open>im\<close> is the state.
\<close>

definition ShowElems_cell ::
  "'a Mat \<Rightarrow> ('a \<Rightarrow> string) \<Rightarrow> (string \<Rightarrow> Size) \<Rightarrow> cint \<Rightarrow> DepthRegion \<Rightarrow> cint \<Rightarrow> cint \<Rightarrow> cint
     \<Rightarrow> Scalar Mat \<Rightarrow> (error + Scalar Mat) option" where
  "ShowElems_cell depth elem2string getTextSize space s i x j im =
     (let y = pt_y (dr_point s) + j in
      if sint y < 0 \<or> sint (rows depth) \<le> sint y then Some (Inr im)
      else
        (case Mat_at depth y x of
           Inl e \<Rightarrow> Some (Inl e)
         | Inr elem \<Rightarrow>
             let str = elem2string elem;
                 color = (if i = 0 \<and> j = 0 then (0, 0, 255) else (0, 0, 0));
                 sz = getTextSize str
             in Some (Inr (putText im str
                  \<lparr>pt_x = (i + dr_n s) * space + cdiv (space - width sz) 2,
                   pt_y = (j + dr_n s) * space + cdiv (space + height sz) 2\<rparr>
                  FONT_HERSHEY_PLAIN 1 color 1))))"

text \<open>The body of the outer loop (lines 83 to 105), for the offset \<open>i\<close>.\<close>

definition ShowElems_column ::
  "'a Mat \<Rightarrow> ('a \<Rightarrow> string) \<Rightarrow> (string \<Rightarrow> Size) \<Rightarrow> cint \<Rightarrow> cint \<Rightarrow> DepthRegion \<Rightarrow> cint
     \<Rightarrow> Scalar Mat \<Rightarrow> (error + Scalar Mat) option" where
  "ShowElems_column depth elem2string getTextSize space n s i im =
     (let x = pt_x (dr_point s) + i in
      if sint x < 0 \<or> sint (cols depth) \<le> sint x then Some (Inr im)
      else for_loop (ShowElems_cell depth elem2string getTextSize space s i x) (- dr_n s) n im)"

text \<open>
  The caption (lines 108 to 118): a null \<^verbatim>\<open>getinfo\<close> is \<open>None\<close>, and an empty caption
  draws nothing.
\<close>

definition ShowElems_info ::
  "'a Mat \<Rightarrow> ('a Mat \<Rightarrow> Point \<Rightarrow> uint32 \<Rightarrow> string) option \<Rightarrow> (string \<Rightarrow> Size) \<Rightarrow> DepthRegion
     \<Rightarrow> Scalar Mat \<Rightarrow> Scalar Mat" where
  "ShowElems_info depth getinfo getTextSize s im =
     (case getinfo of
        None \<Rightarrow> im
      | Some info_of \<Rightarrow>
          let info = info_of depth (dr_point s) (dr_n s) in
          if info \<noteq> [] then
            let sz = getTextSize info in
            putText im info \<lparr>pt_x = 5, pt_y = 5 + height sz\<rparr>
              FONT_HERSHEY_PLAIN 1 (255, 0, 255) 1
          else im)"

text \<open>
  \<^verbatim>\<open>DepthRegion::ShowElems\<close>. It returns \<open>Some (Inr None)\<close> when it returns without
  showing anything, and \<open>Some (Inr (Some im))\<close> when it ends with
  \<^verbatim>\<open>cv::imshow("region", im)\<close>.
\<close>

definition ShowElems ::
  "'a Mat \<Rightarrow> ('a \<Rightarrow> string) \<Rightarrow> cint \<Rightarrow> ('a Mat \<Rightarrow> Point \<Rightarrow> uint32 \<Rightarrow> string) option
     \<Rightarrow> (string \<Rightarrow> Size) \<Rightarrow> DepthRegion \<Rightarrow> (error + Scalar Mat option) option" where
  "ShowElems depth elem2string elem_space getinfo getTextSize s =
     (if \<not> dr_show s then Some (Inr None)
      else
        let space = elem_space;
            n = 2 * dr_n s + 1;
            im = Mat_new (space * n) (space * n) (255, 255, 255)
        in
          (case for_loop (ShowElems_column depth elem2string getTextSize space n s) (- dr_n s) n im of
             None \<Rightarrow> None
           | Some (Inl e) \<Rightarrow> Some (Inl e)
           | Some (Inr im1) \<Rightarrow>
               Some (Inr (Some (ShowElems_info depth getinfo getTextSize s im1)))))"

section \<open>The annotation: DepthRegion::DrawRect\<close>

definition DrawRect :: "'a Mat \<Rightarrow> DepthRegion \<Rightarrow> 'a Mat" where
  "DrawRect img s =
     (if \<not> dr_show s then img
      else
        let n0 = (if 1 < dr_n s then dr_n s else 1);
            n = n0 + 1
        in rectangle img
             \<lparr>pt_x = pt_x (dr_point s) - n, pt_y = pt_y (dr_point s) - n\<rparr>
             \<lparr>pt_x = pt_x (dr_point s) + n, pt_y = pt_y (dr_point s) + n\<rparr>
             (if dr_selected s then (0, 255, 0) else (0, 0, 255)) 1)"

section \<open>The two lambdas of main\<close>

text \<open>
  \<^verbatim>\<open>std::to_string\<close> of an \<^verbatim>\<open>int\<close>: the decimal digits, most significant first, after
  a minus sign for a negative number.
\<close>

definition digit_char :: "nat \<Rightarrow> char" where
  "digit_char d = ''0123456789'' ! d"

fun to_digits :: "nat \<Rightarrow> string" where
  "to_digits n = (if n < 10 then [digit_char n] else to_digits (n div 10) @ [digit_char (n mod 10)])"

declare to_digits.simps [simp del]

definition to_string :: "int \<Rightarrow> string" where
  "to_string k = (if k < 0 then CHR ''-'' # to_digits (nat (- k)) else to_digits (nat k))"

text \<open>
  The formatting rule that main passes to \<^verbatim>\<open>ShowElems<ushort>\<close>. The sample is promoted
  to \<^verbatim>\<open>int\<close> for the comparison and for \<^verbatim>\<open>std::to_string\<close>.
\<close>

definition elem2string :: "ushort \<Rightarrow> string" where
  "elem2string elem = (if 10000 \<le> uint elem then ''invalid'' else to_string (uint elem))"

text \<open>The caption \<^verbatim>\<open>depth_info\<close>; the plus-minus sign is two bytes in UTF-8.\<close>

definition depth_info :: "'a Mat \<Rightarrow> Point \<Rightarrow> uint32 \<Rightarrow> string" where
  "depth_info depth point n =
     ''depth pos: ['' @ to_string (sint (pt_y point)) @ '', '' @ to_string (sint (pt_x point)) @ '']''
       @ [CHR 0xC2, CHR 0xB1] @ to_string (uint n) @ '', unit: mm''"

section \<open>What the specification says, for comparison\<close>

text \<open>
  The specification speaks of the offsets the renderer iterates over: visiting a list of
  offsets in order, with the body of the loop, and the range from \<open>- r\<close> to \<open>2 r + 1\<close>.
\<close>

fun spec_visit :: "(cint \<Rightarrow> 'a \<Rightarrow> (error + 'a) option) \<Rightarrow> cint list \<Rightarrow> 'a \<Rightarrow> (error + 'a) option" where
  "spec_visit body [] acc = Some (Inr acc)"
| "spec_visit body (i # is) acc =
     (case body i acc of
        None \<Rightarrow> None
      | Some (Inl e) \<Rightarrow> Some (Inl e)
      | Some (Inr acc') \<Rightarrow> spec_visit body is acc')"

definition spec_offsets :: "uint32 \<Rightarrow> cint list" where
  "spec_offsets r = map word_of_int [- uint r .. 2 * uint r + 1]"

text \<open>The number a string of decimal digits stands for.\<close>

definition decimal_value :: "string \<Rightarrow> nat" where
  "decimal_value str = foldl (\<lambda>a c. 10 * a + (of_char c - 48)) 0 str"

section \<open>Facts about 32-bit arithmetic\<close>

lemma sint_of_int_32:
  "- (2 ^ 31) \<le> k \<Longrightarrow> k < 2 ^ 31 \<Longrightarrow> sint (word_of_int k :: 32 word) = k"
  by (simp add: sint_sbintrunc' signed_take_bit_int_eq_self)

lemma sint_bounds_32: "- (2 ^ 31) \<le> sint (p :: 32 word) \<and> sint p < 2 ^ 31"
  using sint_ge [of p] sint_lt [of p] by simp

lemma sint_minus_uint:
  assumes "- (2 ^ 31) \<le> sint (p :: cint) - uint (n :: uint32)"
  shows "sint (p - n) = sint p - uint n"
proof -
  have "p - n = word_of_int (sint p - uint n)" by simp
  moreover have "sint p - uint n < 2 ^ 31"
    using sint_bounds_32 [of p] uint_ge_0 [of n] by linarith
  ultimately show ?thesis using assms sint_of_int_32 by metis
qed

lemma sint_plus_uint:
  assumes "sint (p :: cint) + uint (n :: uint32) < 2 ^ 31"
  shows "sint (p + n) = sint p + uint n"
proof -
  have "p + n = word_of_int (sint p + uint n)" by simp
  moreover have "- (2 ^ 31) \<le> sint p + uint n"
    using sint_bounds_32 [of p] uint_ge_0 [of n] by linarith
  ultimately show ?thesis using assms sint_of_int_32 by metis
qed

lemma sint_succ:
  assumes "sint (i :: cint) < 2 ^ 31 - 1"
  shows "sint (i + 1) = sint i + 1"
proof -
  have "i + 1 = word_of_int (sint i + 1)" by simp
  moreover have "- (2 ^ 31) \<le> sint i + 1" using sint_bounds_32 [of i] by simp
  moreover have "sint i + 1 < 2 ^ 31" using assms by simp
  ultimately show ?thesis using sint_of_int_32 by metis
qed

lemma sint_neg_uint:
  assumes "uint (r :: uint32) \<le> 2 ^ 31"
  shows "sint (- r) = - uint r"
proof -
  have "- r = word_of_int (- uint r)" by simp
  moreover have "- uint r < 2 ^ 31"
  proof -
    have "- uint r \<le> 0" by simp
    also have "(0 :: int) < 2 ^ 31" by simp
    finally show ?thesis .
  qed
  moreover have "- (2 ^ 31) \<le> - uint r" using assms by simp
  ultimately show ?thesis using sint_of_int_32 by metis
qed

lemma sint_twice_plus_one:
  assumes "2 * uint (r :: uint32) + 1 < 2 ^ 31"
  shows "sint (2 * r + 1) = 2 * uint r + 1"
proof -
  have "2 * r + 1 = word_of_int (2 * uint r + 1)" by simp
  moreover have "- (2 ^ 31) \<le> 2 * uint r + 1"
  proof -
    have "- (2 ^ 31) \<le> (0 :: int)" by simp
    also have "0 \<le> 2 * uint r + 1" by simp
    finally show ?thesis .
  qed
  ultimately show ?thesis using assms sint_of_int_32 by metis
qed

lemma sint_times:
  assumes "- (2 ^ 31) \<le> sint (a :: cint) * sint (b :: cint)" and "sint a * sint b < 2 ^ 31"
  shows "sint (a * b) = sint a * sint b"
proof -
  have "a * b = word_of_int (sint a * sint b)" by simp
  then show ?thesis using assms sint_of_int_32 by metis
qed

section \<open>The mouse state machine\<close>

lemma CV_EVENT_distinct: "CV_EVENT_MOUSEMOVE \<noteq> CV_EVENT_LBUTTONDOWN"
  by (simp add: CV_EVENT_MOUSEMOVE_def CV_EVENT_LBUTTONDOWN_def)

lemma OnMouse_other:
  "event \<noteq> CV_EVENT_MOUSEMOVE \<Longrightarrow> event \<noteq> CV_EVENT_LBUTTONDOWN \<Longrightarrow> OnMouse event x y flags s = s"
  by (simp add: OnMouse_def)

lemma OnMouse_move:
  "OnMouse CV_EVENT_MOUSEMOVE x y flags s =
     (if dr_selected s then s\<lparr>dr_show := True\<rparr>
      else s\<lparr>dr_show := True, dr_point := \<lparr>pt_x = x, pt_y = y\<rparr>\<rparr>)"
  by (simp add: OnMouse_def)

lemma OnMouse_shows:
  "event = CV_EVENT_MOUSEMOVE \<or> event = CV_EVENT_LBUTTONDOWN \<Longrightarrow> dr_show (OnMouse event x y flags s)"
  using CV_EVENT_distinct by (auto simp: OnMouse_def Let_def)

lemma OnMouse_keeps_show: "dr_show s \<Longrightarrow> dr_show (OnMouse event x y flags s)"
  by (simp add: OnMouse_def Let_def)

lemma OnMouse_radius: "dr_n (OnMouse event x y flags s) = dr_n s"
  by (simp add: OnMouse_def Let_def)

lemma deliver_keeps_show: "dr_show s \<Longrightarrow> dr_show (deliver evs s)"
proof (induction evs arbitrary: s)
  case Nil
  then show ?case by simp
next
  case (Cons ev evs)
  obtain e x y f where ev: "ev = (e, x, y, f)" by (cases ev) auto
  from Cons.prems have "dr_show (OnMouse e x y f s)" by (rule OnMouse_keeps_show)
  then show ?case using Cons.IH ev by (simp add: OnDepthMouseCallback_def)
qed

lemma OnMouse_hidden_unchanged:
  assumes "\<not> dr_show (OnMouse event x y flags s)"
  shows "OnMouse event x y flags s = s"
proof -
  from assms OnMouse_shows have "event \<noteq> CV_EVENT_MOUSEMOVE \<and> event \<noteq> CV_EVENT_LBUTTONDOWN"
    by blast
  then show ?thesis by (simp add: OnMouse_other)
qed

lemma deliver_hidden_unchanged: "\<not> dr_show (deliver evs s) \<Longrightarrow> deliver evs s = s"
proof (induction evs arbitrary: s)
  case Nil
  then show ?case by simp
next
  case (Cons ev evs)
  obtain e x y f where ev: "ev = (e, x, y, f)" by (cases ev) auto
  let ?s' = "OnMouse e x y f s"
  from Cons.prems ev have hidden: "\<not> dr_show (deliver evs ?s')"
    by (simp add: OnDepthMouseCallback_def)
  then have "\<not> dr_show ?s'" using deliver_keeps_show by blast
  then have "?s' = s" by (rule OnMouse_hidden_unchanged)
  moreover from hidden have "deliver evs ?s' = ?s'" by (rule Cons.IH)
  ultimately show ?case using ev by (simp add: OnDepthMouseCallback_def)
qed

lemma deliver_moves:
  assumes "\<not> dr_selected s" and "evs \<noteq> []"
    and "\<forall>ev \<in> set evs. ev_kind ev = CV_EVENT_MOUSEMOVE"
  shows "dr_point (deliver evs s) = ev_point (last evs) \<and> \<not> dr_selected (deliver evs s)"
  using assms
proof (induction evs arbitrary: s)
  case Nil
  then show ?case by simp
next
  case (Cons ev evs)
  obtain e x y f where ev: "ev = (e, x, y, f)" by (cases ev) auto
  with Cons.prems have e: "e = CV_EVENT_MOUSEMOVE" by (simp add: ev_kind_def)
  let ?s' = "OnMouse e x y f s"
  from e Cons.prems(1) have s': "\<not> dr_selected ?s'" "dr_point ?s' = \<lparr>pt_x = x, pt_y = y\<rparr>"
    by (simp_all add: OnMouse_move)
  show ?case
  proof (cases "evs = []")
    case True
    with s' ev show ?thesis by (simp add: OnDepthMouseCallback_def ev_point_def)
  next
    case False
    moreover from Cons.prems have "\<forall>ev \<in> set evs. ev_kind ev = CV_EVENT_MOUSEMOVE" by simp
    ultimately have "dr_point (deliver evs ?s') = ev_point (last evs) \<and> \<not> dr_selected (deliver evs ?s')"
      using Cons.IH s'(1) by blast
    with False ev show ?thesis by (simp add: OnDepthMouseCallback_def)
  qed
qed

text \<open>
  Claim C1, as stated: for a selector pinned at point P with radius R, a button-down
  event at (x, y) with |x - P.x| \<le> R and |y - P.y| \<le> R unpins and leaves the point
  equal to P. This fails. With P = (10, 10) and R = 3, the click at (11, 10) is inside the
  square, and the point becomes (11, 10): the assignments to \<^verbatim>\<open>point_\<close> follow the test
  of \<^verbatim>\<open>selected_\<close> unconditionally. Moreover the bounds P.x - R and P.x + R are computed in
  32 bits: with P = (2147483647, 0) and R = 3 the click at P itself does not unpin,
  since P.x + R wraps around.
\<close>

theorem OnMouse_down_inside_counterexample:
  "dr_selected \<lparr>dr_n = 3, dr_show = True, dr_selected = True, dr_point = \<lparr>pt_x = 10, pt_y = 10\<rparr>\<rparr>
   \<and> \<bar>sint (11 :: cint) - sint (10 :: cint)\<bar> \<le> uint (3 :: uint32)
   \<and> \<bar>sint (10 :: cint) - sint (10 :: cint)\<bar> \<le> uint (3 :: uint32)
   \<and> dr_point (OnMouse CV_EVENT_LBUTTONDOWN 11 10 0
        \<lparr>dr_n = 3, dr_show = True, dr_selected = True, dr_point = \<lparr>pt_x = 10, pt_y = 10\<rparr>\<rparr>)
       \<noteq> \<lparr>pt_x = 10, pt_y = 10\<rparr>
   \<and> \<bar>sint (2147483647 :: cint) - sint (2147483647 :: cint)\<bar> \<le> uint (3 :: uint32)
   \<and> \<bar>sint (0 :: cint) - sint (0 :: cint)\<bar> \<le> uint (3 :: uint32)
   \<and> dr_selected (OnMouse CV_EVENT_LBUTTONDOWN 2147483647 0 0
        \<lparr>dr_n = 3, dr_show = True, dr_selected = True,
         dr_point = \<lparr>pt_x = 2147483647, pt_y = 0\<rparr>\<rparr>)"
  by (simp add: OnMouse_def CV_EVENT_LBUTTONDOWN_def CV_EVENT_MOUSEMOVE_def)

text \<open>
  Claim C1, amended: for a selector pinned at point P with radius R such that P.x - R,
  P.x + R, P.y - R and P.y + R are representable as 32-bit signed integers, a button-down
  event at (x, y) with |x - P.x| \<le> R and |y - P.y| \<le> R sets pinned to false and sets
  the point to (x, y).
\<close>

theorem OnMouse_down_inside:
  assumes "dr_selected s"
    and "- (2 ^ 31) \<le> sint (pt_x (dr_point s)) - uint (dr_n s)"
    and "sint (pt_x (dr_point s)) + uint (dr_n s) < 2 ^ 31"
    and "- (2 ^ 31) \<le> sint (pt_y (dr_point s)) - uint (dr_n s)"
    and "sint (pt_y (dr_point s)) + uint (dr_n s) < 2 ^ 31"
    and "\<bar>sint x - sint (pt_x (dr_point s))\<bar> \<le> uint (dr_n s)"
    and "\<bar>sint y - sint (pt_y (dr_point s))\<bar> \<le> uint (dr_n s)"
  shows "dr_selected (OnMouse CV_EVENT_LBUTTONDOWN x y flags s) = False
       \<and> dr_point (OnMouse CV_EVENT_LBUTTONDOWN x y flags s) = \<lparr>pt_x = x, pt_y = y\<rparr>"
proof -
  have "sint (pt_x (dr_point s) - dr_n s) \<le> sint x"
    using assms(2,6) by (simp add: sint_minus_uint)
  moreover have "sint x \<le> sint (pt_x (dr_point s) + dr_n s)"
    using assms(3,6) by (simp add: sint_plus_uint)
  moreover have "sint (pt_y (dr_point s) - dr_n s) \<le> sint y"
    using assms(4,7) by (simp add: sint_minus_uint)
  moreover have "sint y \<le> sint (pt_y (dr_point s) + dr_n s)"
    using assms(5,7) by (simp add: sint_plus_uint)
  ultimately show ?thesis
    using assms(1) CV_EVENT_distinct by (simp add: OnMouse_def)
qed

theorem OnMouse_down_inside_witness:
  "dr_selected (OnMouse CV_EVENT_LBUTTONDOWN 11 9 0
      \<lparr>dr_n = 3, dr_show = True, dr_selected = True, dr_point = \<lparr>pt_x = 10, pt_y = 10\<rparr>\<rparr>) = False
   \<and> dr_point (OnMouse CV_EVENT_LBUTTONDOWN 11 9 0
      \<lparr>dr_n = 3, dr_show = True, dr_selected = True, dr_point = \<lparr>pt_x = 10, pt_y = 10\<rparr>\<rparr>)
     = \<lparr>pt_x = 11, pt_y = 9\<rparr>"
  using OnMouse_down_inside [of
      "\<lparr>dr_n = 3, dr_show = True, dr_selected = True, dr_point = \<lparr>pt_x = 10, pt_y = 10\<rparr>\<rparr>"
      11 9 0]
  by simp

text \<open>
  Claim C3: once a move or button-down event has been delivered, the visible flag
  \<^verbatim>\<open>show_\<close> is true, and it is still true after any further sequence of events of any
  kind. (\<^verbatim>\<open>OnMouse\<close> is the only member function that writes the state:
  \<^verbatim>\<open>ShowElems\<close> and \<^verbatim>\<open>DrawRect\<close> read it.)
\<close>

theorem show_latch:
  assumes "event = CV_EVENT_MOUSEMOVE \<or> event = CV_EVENT_LBUTTONDOWN"
  shows "dr_show (deliver evs (OnMouse event x y flags s))"
  using assms by (intro deliver_keeps_show OnMouse_shows)

theorem show_latch_witness:
  "dr_show (deliver [(7, 1, 2, 0), (1, 5, 5, 0), (4, 0, 0, 0)]
     (OnMouse CV_EVENT_MOUSEMOVE 3 4 0 (DepthRegion_new 3)))"
  using show_latch [of CV_EVENT_MOUSEMOVE "[(7, 1, 2, 0), (1, 5, 5, 0), (4, 0, 0, 0)]" 3 4 0
      "DepthRegion_new 3"]
  by simp

text \<open>
  Claim C4: an event that is neither a move nor a button-down leaves the whole state
  unchanged; a move event at (x, y) sets the point to (x, y) when the selector is not
  pinned and leaves the point unchanged when it is pinned; hence after any non-empty
  sequence of move events delivered to a selector that is not pinned, the point is the
  position of the last event.
\<close>

theorem OnMouse_not_down:
  "(event \<noteq> CV_EVENT_MOUSEMOVE \<and> event \<noteq> CV_EVENT_LBUTTONDOWN \<longrightarrow> OnMouse event x y flags s = s)
   \<and> (\<not> dr_selected s \<longrightarrow> dr_point (OnMouse CV_EVENT_MOUSEMOVE x y flags s) = \<lparr>pt_x = x, pt_y = y\<rparr>)
   \<and> (dr_selected s \<longrightarrow> dr_point (OnMouse CV_EVENT_MOUSEMOVE x y flags s) = dr_point s)
   \<and> (\<not> dr_selected s \<and> evs \<noteq> [] \<and> (\<forall>ev \<in> set evs. ev_kind ev = CV_EVENT_MOUSEMOVE)
        \<longrightarrow> dr_point (deliver evs s) = ev_point (last evs))"
  using deliver_moves [of s evs] by (simp add: OnMouse_other OnMouse_move)

theorem OnMouse_not_down_witness:
  "OnMouse 7 5 6 0 (DepthRegion_new 3) = DepthRegion_new 3
   \<and> dr_point (OnMouse CV_EVENT_MOUSEMOVE 5 6 0 (DepthRegion_new 3)) = \<lparr>pt_x = 5, pt_y = 6\<rparr>
   \<and> dr_point (OnMouse CV_EVENT_MOUSEMOVE 5 6 0
        \<lparr>dr_n = 3, dr_show = True, dr_selected = True, dr_point = \<lparr>pt_x = 1, pt_y = 2\<rparr>\<rparr>)
      = \<lparr>pt_x = 1, pt_y = 2\<rparr>
   \<and> dr_point (deliver [(0, 1, 2, 0), (0, 8, 9, 0)] (DepthRegion_new 3)) = \<lparr>pt_x = 8, pt_y = 9\<rparr>"
proof -
  have "OnMouse 7 5 6 0 (DepthRegion_new 3) = DepthRegion_new 3"
    using OnMouse_not_down [of 7 5 6 0 "DepthRegion_new 3" "[]"]
    by (simp add: CV_EVENT_MOUSEMOVE_def CV_EVENT_LBUTTONDOWN_def)
  moreover have "dr_point (OnMouse CV_EVENT_MOUSEMOVE 5 6 0 (DepthRegion_new 3)) = \<lparr>pt_x = 5, pt_y = 6\<rparr>"
    using OnMouse_not_down [of CV_EVENT_MOUSEMOVE 5 6 0 "DepthRegion_new 3" "[]"]
    by (simp add: DepthRegion_new_def)
  moreover have "dr_point (OnMouse CV_EVENT_MOUSEMOVE 5 6 0
        \<lparr>dr_n = 3, dr_show = True, dr_selected = True, dr_point = \<lparr>pt_x = 1, pt_y = 2\<rparr>\<rparr>)
      = \<lparr>pt_x = 1, pt_y = 2\<rparr>"
    using OnMouse_not_down [of CV_EVENT_MOUSEMOVE 5 6 0
        "\<lparr>dr_n = 3, dr_show = True, dr_selected = True, dr_point = \<lparr>pt_x = 1, pt_y = 2\<rparr>\<rparr>" "[]"]
    by simp
  moreover have "dr_point (deliver [(0, 1, 2, 0), (0, 8, 9, 0)] (DepthRegion_new 3)) = \<lparr>pt_x = 8, pt_y = 9\<rparr>"
    using OnMouse_not_down [of CV_EVENT_MOUSEMOVE 0 0 0 "DepthRegion_new 3"
        "[(0, 1, 2, 0), (0, 8, 9, 0)]"]
    by (simp add: DepthRegion_new_def ev_kind_def ev_point_def CV_EVENT_MOUSEMOVE_def)
  ultimately show ?thesis by blast
qed

text \<open>
  Claim C10: after any sequence of events delivered to a freshly constructed selector,
  if the visible flag \<^verbatim>\<open>show_\<close> is still false then the whole state is the initial one:
  the point is (0, 0) and the selector is not pinned.
\<close>

theorem hidden_is_initial:
  assumes "\<not> dr_show (deliver evs (DepthRegion_new n))"
  shows "deliver evs (DepthRegion_new n) = DepthRegion_new n
       \<and> dr_point (deliver evs (DepthRegion_new n)) = \<lparr>pt_x = 0, pt_y = 0\<rparr>
       \<and> \<not> dr_selected (deliver evs (DepthRegion_new n))"
proof -
  from assms have "deliver evs (DepthRegion_new n) = DepthRegion_new n"
    by (rule deliver_hidden_unchanged)
  then show ?thesis by (simp add: DepthRegion_new_def)
qed

theorem hidden_is_initial_witness:
  "\<not> dr_show (deliver [(7, 5, 6, 0), (2, 1, 1, 0)] (DepthRegion_new 3))
   \<and> deliver [(7, 5, 6, 0), (2, 1, 1, 0)] (DepthRegion_new 3) = DepthRegion_new 3"
proof -
  have h: "\<not> dr_show (deliver [(7, 5, 6, 0), (2, 1, 1, 0)] (DepthRegion_new 3))"
    by (simp add: OnDepthMouseCallback_def OnMouse_def DepthRegion_new_def
        CV_EVENT_MOUSEMOVE_def CV_EVENT_LBUTTONDOWN_def)
  from h hidden_is_initial [OF h] show ?thesis by blast
qed

section \<open>The depth formatting rule\<close>

lemma digit_char_in_digits: "d < 10 \<Longrightarrow> digit_char d \<in> set ''0123456789''"
  unfolding digit_char_def by (rule nth_mem) simp

lemma to_digits_digits: "set (to_digits n) \<subseteq> set ''0123456789''"
proof (induction n rule: to_digits.induct)
  case (1 n)
  show ?case
  proof (cases "n < 10")
    case True
    then have "to_digits n = [digit_char n]" by (subst to_digits.simps) simp
    with True digit_char_in_digits [of n] show ?thesis by simp
  next
    case False
    then have eq: "to_digits n = to_digits (n div 10) @ [digit_char (n mod 10)]"
      by (subst to_digits.simps) simp
    have "digit_char (n mod 10) \<in> set ''0123456789''" by (rule digit_char_in_digits) simp
    with 1 False eq show ?thesis by simp
  qed
qed

lemma to_digits_not_invalid: "to_digits n \<noteq> ''invalid''"
proof
  assume "to_digits n = ''invalid''"
  then have "CHR ''i'' \<in> set (to_digits n)" by simp
  with to_digits_digits [of n] show False by auto
qed

lemma digit_char_value: "d < 10 \<Longrightarrow> of_char (digit_char d) - 48 = d"
proof -
  assume "d < 10"
  then have "d \<in> {0, 1, 2, 3, 4, 5, 6, 7, 8, 9}" by auto
  then show ?thesis by (auto simp: digit_char_def)
qed

lemma decimal_value_to_digits: "decimal_value (to_digits n) = n"
proof (induction n rule: to_digits.induct)
  case (1 n)
  show ?case
  proof (cases "n < 10")
    case True
    then have "to_digits n = [digit_char n]" by (subst to_digits.simps) simp
    with True show ?thesis by (simp add: decimal_value_def digit_char_value)
  next
    case False
    then have eq: "to_digits n = to_digits (n div 10) @ [digit_char (n mod 10)]"
      by (subst to_digits.simps) simp
    from 1 False have "decimal_value (to_digits (n div 10)) = n div 10" by simp
    then have "decimal_value (to_digits n) = 10 * (n div 10) + n mod 10"
      using eq by (simp add: decimal_value_def digit_char_value)
    then show ?thesis by simp
  qed
qed

text \<open>
  Claim C5: the formatting rule of the depth overlay maps a 16-bit sample v to the string
  "invalid" exactly when v \<ge> 10000, and to the decimal representation of v otherwise
  (a string of decimal digits whose value is v); 10000 gives "invalid" and 9999 gives
  "9999".
\<close>

theorem elem2string_invalid:
  "(elem2string v = ''invalid'') = (10000 \<le> uint v)
   \<and> (uint v < 10000 \<longrightarrow>
        elem2string v = to_string (uint v)
        \<and> set (elem2string v) \<subseteq> set ''0123456789''
        \<and> int (decimal_value (elem2string v)) = uint v)
   \<and> elem2string 10000 = ''invalid''
   \<and> elem2string 9999 = ''9999''"
proof -
  have a: "(elem2string v = ''invalid'') = (10000 \<le> uint v)"
    using to_digits_not_invalid [of "nat (uint v)"] by (simp add: elem2string_def to_string_def)
  have b: "uint v < 10000 \<longrightarrow> elem2string v = to_string (uint v)
        \<and> set (elem2string v) \<subseteq> set ''0123456789''
        \<and> int (decimal_value (elem2string v)) = uint v"
    using to_digits_digits [of "nat (uint v)"]
    by (simp add: elem2string_def to_string_def decimal_value_to_digits)
  have c: "elem2string 10000 = ''invalid''" by (simp add: elem2string_def)
  have d: "elem2string 9999 = ''9999''"
    by (simp add: elem2string_def to_string_def to_digits.simps digit_char_def)
  from a b c d show ?thesis by blast
qed

theorem elem2string_invalid_witness:
  "elem2string 65535 = ''invalid'' \<and> elem2string 10000 = ''invalid''
   \<and> elem2string 9999 = ''9999'' \<and> elem2string 0 = ''0''
   \<and> decimal_value (elem2string 1234) = 1234"
proof -
  have "elem2string 65535 = ''invalid''" using elem2string_invalid [of 65535] by simp
  moreover have "elem2string 10000 = ''invalid'' \<and> elem2string 9999 = ''9999''"
    using elem2string_invalid [of 0] by simp
  moreover have "elem2string 0 = ''0''"
    using elem2string_invalid [of 0] by (simp add: to_string_def to_digits.simps digit_char_def)
  moreover have "decimal_value (elem2string 1234) = 1234"
  proof -
    have "uint (1234 :: ushort) < 10000" by simp
    with elem2string_invalid [of 1234]
    have "int (decimal_value (elem2string 1234)) = uint (1234 :: ushort)" by blast
    then show ?thesis by simp
  qed
  ultimately show ?thesis by blast
qed

section \<open>The loops of the renderer\<close>

text \<open>
  A loop whose bound is below the largest \<^verbatim>\<open>int\<close> returns, and visits the offsets from
  its start to its bound in order. A loop whose bound is the largest \<^verbatim>\<open>int\<close> does not
  return.
\<close>

lemma for_loop_visit:
  assumes "sint n < 2 ^ 31 - 1"
  shows "for_loop body i n acc = spec_visit body (map word_of_int [sint i .. sint n]) acc"
proof (induction "nat (sint n - sint i + 1)" arbitrary: i acc)
  case 0
  then have "sint n < sint i" by simp
  then show ?case by (simp add: for_loop.simps)
next
  case (Suc k)
  then have le: "sint i \<le> sint n" by linarith
  with assms have succ: "sint (i + 1) = sint i + 1" by (simp add: sint_succ)
  with Suc.hyps(2) have "k = nat (sint n - sint (i + 1) + 1)" by linarith
  then have IH: "\<And>acc'. for_loop body (i + 1) n acc' =
      spec_visit body (map word_of_int [sint i + 1 .. sint n]) acc'"
    using Suc.hyps(1) succ by metis
  have "[sint i .. sint n] = sint i # [sint i + 1 .. sint n]"
    using le by (simp add: upto_rec1)
  then have "spec_visit body (map word_of_int [sint i .. sint n]) acc =
      (case body i acc of None \<Rightarrow> None | Some (Inl e) \<Rightarrow> Some (Inl e)
       | Some (Inr acc') \<Rightarrow> spec_visit body (map word_of_int [sint i + 1 .. sint n]) acc')"
    by simp
  moreover have "for_loop body i n acc =
      (case body i acc of None \<Rightarrow> None | Some (Inl e) \<Rightarrow> Some (Inl e)
       | Some (Inr acc') \<Rightarrow> for_loop body (i + 1) n acc')"
    using le by (subst for_loop.simps) simp
  ultimately show ?case by (simp add: IH split: option.splits sum.splits)
qed

lemma for_loop_offsets:
  assumes "uint (r :: uint32) < 2 ^ 30 - 1"
  shows "for_loop body (- r) (2 * r + 1) acc = spec_visit body (spec_offsets r) acc"
proof -
  have a: "sint (- r) = - uint r" using assms by (intro sint_neg_uint) simp
  have b: "sint (2 * r + 1) = 2 * uint r + 1" using assms by (intro sint_twice_plus_one) simp
  have "sint (2 * r + 1) < 2 ^ 31 - 1" using assms b by simp
  then show ?thesis by (simp add: for_loop_visit a b spec_offsets_def)
qed

lemma length_offsets: "length (spec_offsets r) = nat (3 * uint r + 2)"
  by (simp add: spec_offsets_def)

lemma sint_offsets:
  assumes "uint (r :: uint32) < 2 ^ 30 - 1"
  shows "map sint (spec_offsets r) = [- uint r .. 2 * uint r + 1]"
proof -
  have "\<And>k. k \<in> set [- uint r .. 2 * uint r + 1] \<Longrightarrow> sint (word_of_int k :: cint) = k"
  proof -
    fix k assume "k \<in> set [- uint r .. 2 * uint r + 1]"
    then have "- uint r \<le> k" "k \<le> 2 * uint r + 1" by simp_all
    with assms have "- (2 ^ 31) \<le> k" "k < 2 ^ 31" by simp_all
    then show "sint (word_of_int k :: cint) = k" by (rule sint_of_int_32)
  qed
  then have "map (sint \<circ> (word_of_int :: int \<Rightarrow> cint)) [- uint r .. 2 * uint r + 1]
      = map id [- uint r .. 2 * uint r + 1]"
    by (intro map_cong) simp_all
  then show ?thesis by (simp add: spec_offsets_def)
qed

lemma for_loop_error_aux:
  "for_loop body i n acc = Some r \<Longrightarrow>
     (\<forall>e. r = Inl e \<longrightarrow> (\<exists>i' acc'. body i' acc' = Some (Inl e)))"
proof (induction rule: for_loop.raw_induct [rotated 1, consumes 1])
  case (1 loop body i n acc r)
  show ?case
  proof (cases "sint i \<le> sint n")
    case False
    with 1(2) show ?thesis by auto
  next
    case True
    show ?thesis
    proof (cases "body i acc")
      case None
      with 1(2) True show ?thesis by simp
    next
      case (Some b)
      show ?thesis
      proof (cases b)
        case (Inl e')
        with 1(2) True Some show ?thesis by auto
      next
        case (Inr acc')
        with 1(2) True Some have "loop body (i + 1) n acc' = Some r" by simp
        then show ?thesis by (rule 1(1))
      qed
    qed
  qed
qed

lemma for_loop_invariant_aux:
  "for_loop body i n acc = Some r \<Longrightarrow>
     (\<forall>j a a'. P a \<longrightarrow> body j a = Some (Inr a') \<longrightarrow> P a') \<longrightarrow> P acc \<longrightarrow>
     (\<forall>acc'. r = Inr acc' \<longrightarrow> P acc')"
proof (induction rule: for_loop.raw_induct [rotated 1, consumes 1])
  case (1 loop body i n acc r)
  show ?case
  proof (cases "sint i \<le> sint n")
    case False
    with 1(2) show ?thesis by auto
  next
    case True
    show ?thesis
    proof (cases "body i acc")
      case None
      with 1(2) True show ?thesis by simp
    next
      case (Some b)
      show ?thesis
      proof (cases b)
        case (Inl e')
        with 1(2) True Some show ?thesis by auto
      next
        case (Inr a')
        with 1(2) True Some have "loop body (i + 1) n a' = Some r" by simp
        then have "(\<forall>j a a'. P a \<longrightarrow> body j a = Some (Inr a') \<longrightarrow> P a') \<longrightarrow> P a' \<longrightarrow>
            (\<forall>acc'. r = Inr acc' \<longrightarrow> P acc')"
          by (rule 1(1))
        with Some Inr show ?thesis by blast
      qed
    qed
  qed
qed

lemma for_loop_no_return_aux:
  "for_loop body i n acc = Some r \<Longrightarrow>
     sint n = 2 ^ 31 - 1 \<longrightarrow> (\<forall>j a. \<exists>a'. body j a = Some (Inr a')) \<longrightarrow> False"
proof (induction rule: for_loop.raw_induct [rotated 1, consumes 1])
  case (1 loop body i n acc r)
  show ?case
  proof (intro impI)
    assume n: "sint n = 2 ^ 31 - 1" and total: "\<forall>j a. \<exists>a'. body j a = Some (Inr a')"
    from total obtain a' where a': "body i acc = Some (Inr a')" by blast
    have "sint i \<le> sint n" using n sint_bounds_32 [of i] by simp
    with 1(2) a' have "loop body (i + 1) n a' = Some r" by simp
    from 1(1) [OF this] n total show False by blast
  qed
qed

lemma for_loop_INT_MAX_no_return:
  assumes "sint n = 2 ^ 31 - 1" and "\<forall>j a. \<exists>a'. body j a = Some (Inr a')"
  shows "for_loop body i n acc = None"
proof (cases "for_loop body i n acc")
  case None
  then show ?thesis .
next
  case (Some r)
  from for_loop_no_return_aux [OF Some] assms show ?thesis by blast
qed

lemma visit_total:
  assumes "P acc"
    and "\<And>j a. P a \<Longrightarrow> \<exists>a'. body j a = Some (Inr a') \<and> P a'"
  shows "\<exists>acc'. spec_visit body xs acc = Some (Inr acc') \<and> P acc'"
  using assms(1)
proof (induction xs arbitrary: acc)
  case Nil
  then show ?case by simp
next
  case (Cons x xs)
  from assms(2) [OF Cons.prems] obtain a' where a': "body x acc = Some (Inr a')" "P a'" by blast
  from Cons.IH [OF a'(2)] a'(1) show ?case by simp
qed

lemma ShowElems_cell_size:
  "ShowElems_cell depth fmt getTextSize space s i x j im = Some (Inr im') \<Longrightarrow>
     rows im' = rows im \<and> cols im' = cols im"
  by (auto simp: ShowElems_cell_def Let_def putText_def split: if_splits sum.splits)

lemma ShowElems_cell_returns:
  assumes "0 \<le> sint x" and "sint x < sint (cols depth)"
  shows "\<exists>im'. ShowElems_cell depth fmt getTextSize space s i x j im = Some (Inr im')"
  using assms by (simp add: ShowElems_cell_def Let_def Mat_at_def)

lemma ShowElems_column_no_error:
  "ShowElems_column depth fmt getTextSize space n s i im \<noteq> Some (Inl e)"
proof (cases "sint (pt_x (dr_point s) + i) < 0 \<or> sint (cols depth) \<le> sint (pt_x (dr_point s) + i)")
  case True
  then show ?thesis by (simp add: ShowElems_column_def Let_def)
next
  case False
  let ?x = "pt_x (dr_point s) + i"
  let ?cell = "ShowElems_cell depth fmt getTextSize space s i ?x"
  from False have x: "0 \<le> sint ?x" "sint ?x < sint (cols depth)" by simp_all
  have "for_loop ?cell (- dr_n s) n im \<noteq> Some (Inl e)"
  proof
    assume "for_loop ?cell (- dr_n s) n im = Some (Inl e)"
    from for_loop_error_aux [OF this] obtain j a where "?cell j a = Some (Inl e)"
      by auto
    moreover obtain a' where "?cell j a = Some (Inr a')"
      using ShowElems_cell_returns [OF x] by blast
    ultimately show False by simp
  qed
  with False show ?thesis by (simp add: ShowElems_column_def Let_def)
qed

lemma ShowElems_column_size:
  assumes "ShowElems_column depth fmt getTextSize space n s i im = Some (Inr im')"
  shows "rows im' = rows im \<and> cols im' = cols im"
proof (cases "sint (pt_x (dr_point s) + i) < 0 \<or> sint (cols depth) \<le> sint (pt_x (dr_point s) + i)")
  case True
  with assms show ?thesis by (simp add: ShowElems_column_def Let_def)
next
  case False
  let ?x = "pt_x (dr_point s) + i"
  let ?cell = "ShowElems_cell depth fmt getTextSize space s i ?x"
  let ?P = "\<lambda>a. rows a = rows im \<and> cols a = cols im"
  from False assms have loop: "for_loop ?cell (- dr_n s) n im = Some (Inr im')"
    by (simp add: ShowElems_column_def Let_def)
  have "\<forall>j a a'. ?P a \<longrightarrow> ?cell j a = Some (Inr a') \<longrightarrow> ?P a'"
  proof (intro allI impI)
    fix j a a'
    assume "?P a" and "?cell j a = Some (Inr a')"
    then show "?P a'" using ShowElems_cell_size [of depth fmt getTextSize space s i ?x j a a'] by simp
  qed
  with for_loop_invariant_aux [OF loop, of ?P] show ?thesis by blast
qed

lemma ShowElems_column_returns:
  assumes "uint (dr_n s) < 2 ^ 30 - 1"
  shows "\<exists>im'. ShowElems_column depth fmt getTextSize space (2 * dr_n s + 1) s i im
            = Some (Inr im')"
proof (cases "sint (pt_x (dr_point s) + i) < 0 \<or> sint (cols depth) \<le> sint (pt_x (dr_point s) + i)")
  case True
  then show ?thesis by (simp add: ShowElems_column_def Let_def)
next
  case False
  let ?x = "pt_x (dr_point s) + i"
  let ?cell = "ShowElems_cell depth fmt getTextSize space s i ?x"
  from False have x: "0 \<le> sint ?x" "sint ?x < sint (cols depth)" by simp_all
  have "\<And>j a. True \<Longrightarrow> \<exists>a'. ?cell j a = Some (Inr a') \<and> True"
    using ShowElems_cell_returns [OF x] by simp
  then have "\<exists>im'. spec_visit ?cell (spec_offsets (dr_n s)) im = Some (Inr im') \<and> True"
    by (intro visit_total) simp_all
  with False assms show ?thesis
    by (simp add: ShowElems_column_def Let_def for_loop_offsets)
qed

lemma ShowElems_no_error:
  "ShowElems depth fmt elem_space getinfo getTextSize s \<noteq> Some (Inl e)"
proof
  assume a: "ShowElems depth fmt elem_space getinfo getTextSize s = Some (Inl e)"
  let ?n = "2 * dr_n s + 1"
  let ?col = "ShowElems_column depth fmt getTextSize elem_space ?n s"
  let ?im = "Mat_new (elem_space * ?n) (elem_space * ?n) (255, 255, 255 :: nat)"
  from a have "dr_show s" by (auto simp: ShowElems_def split: if_splits)
  with a have "for_loop ?col (- dr_n s) ?n ?im = Some (Inl e)"
    by (auto simp: ShowElems_def Let_def split: option.splits sum.splits)
  from for_loop_error_aux [OF this] obtain i a where "?col i a = Some (Inl e)"
    by auto
  then show False using ShowElems_column_no_error by blast
qed

lemma ShowElems_size:
  assumes "ShowElems depth fmt elem_space getinfo getTextSize s = Some (Inr (Some im))"
  shows "rows im = elem_space * (2 * dr_n s + 1) \<and> cols im = elem_space * (2 * dr_n s + 1)"
proof -
  let ?n = "2 * dr_n s + 1"
  let ?col = "ShowElems_column depth fmt getTextSize elem_space ?n s"
  let ?im = "Mat_new (elem_space * ?n) (elem_space * ?n) (255, 255, 255 :: nat)"
  let ?P = "\<lambda>a :: Scalar Mat. rows a = elem_space * ?n \<and> cols a = elem_space * ?n"
  from assms have sh: "dr_show s" by (auto simp: ShowElems_def split: if_splits)
  with assms obtain im1 where loop: "for_loop ?col (- dr_n s) ?n ?im = Some (Inr im1)"
    and sz: "rows im = rows im1 \<and> cols im = cols im1"
    by (auto simp: ShowElems_def ShowElems_info_def Let_def putText_def
        split: option.splits sum.splits if_splits)
  have "\<forall>j a a'. ?P a \<longrightarrow> ?col j a = Some (Inr a') \<longrightarrow> ?P a'"
  proof (intro allI impI)
    fix j a a'
    assume "?P a" and "?col j a = Some (Inr a')"
    then show "?P a'"
      using ShowElems_column_size [of depth fmt getTextSize elem_space ?n s j a a'] by simp
  qed
  moreover have "?P ?im" by (simp add: Mat_new_def)
  ultimately have "?P im1" using for_loop_invariant_aux [OF loop, of ?P] by blast
  with sz show ?thesis by simp
qed

lemma ShowElems_returns:
  assumes "dr_show s" and "uint (dr_n s) < 2 ^ 30 - 1"
  shows "\<exists>im. ShowElems depth fmt elem_space getinfo getTextSize s = Some (Inr (Some im))"
proof -
  let ?n = "2 * dr_n s + 1"
  let ?col = "ShowElems_column depth fmt getTextSize elem_space ?n s"
  let ?im = "Mat_new (elem_space * ?n) (elem_space * ?n) (255, 255, 255 :: nat)"
  have "\<And>j a. True \<Longrightarrow> \<exists>a'. ?col j a = Some (Inr a') \<and> True"
    using ShowElems_column_returns [OF assms(2)] by simp
  then have "\<exists>im1. spec_visit ?col (spec_offsets (dr_n s)) ?im = Some (Inr im1) \<and> True"
    by (intro visit_total) simp_all
  then obtain im1 where "for_loop ?col (- dr_n s) ?n ?im = Some (Inr im1)"
    using assms(2) by (auto simp: for_loop_offsets)
  with assms(1) show ?thesis by (simp add: ShowElems_def Let_def)
qed

text \<open>
  At the corner of a 1 by 1 depth image, with radius 3 and cells of 80 pixels, one cell
  of the 11 by 11 offsets is inside the image, and it is the only text drawn.
\<close>

lemma ShowElems_corner_example:
  "ShowElems (Mat_new 1 1 (42 :: ushort)) elem2string 80 None
      (\<lambda>str. \<lparr>width = 18, height = 10\<rparr>)
      \<lparr>dr_n = 3, dr_show = True, dr_selected = False, dr_point = \<lparr>pt_x = 0, pt_y = 0\<rparr>\<rparr>
   = Some (Inr (Some
       \<lparr>rows = 560, cols = 560, elems = (\<lambda>_ _. (255, 255, 255)),
        drawn = [PutText ''42'' \<lparr>pt_x = 271, pt_y = 285\<rparr> 1 1 (0, 0, 255) 1]\<rparr>))"
  by (simp add: ShowElems_def ShowElems_info_def ShowElems_column_def ShowElems_cell_def
      for_loop.simps Mat_new_def Mat_at_def putText_def elem2string_def to_string_def to_digits.simps
      digit_char_def cdiv_def signed_divide_int_def FONT_HERSHEY_PLAIN_def)

text \<open>
  With radius 1073741823 the bound \<open>2 r + 1\<close> of the loops is the largest \<^verbatim>\<open>int\<close>, and
  \<^verbatim>\<open>ShowElems\<close> does not return.
\<close>

lemma ShowElems_radius_limit_no_return:
  "ShowElems (Mat_new 0 0 (0 :: ushort)) fmt 1 getinfo getTextSize
     \<lparr>dr_n = 1073741823, dr_show = True, dr_selected = False, dr_point = \<lparr>pt_x = 0, pt_y = 0\<rparr>\<rparr>
   = None"
proof -
  let ?s = "\<lparr>dr_n = 1073741823, dr_show = True, dr_selected = False, dr_point = \<lparr>pt_x = 0, pt_y = 0\<rparr>\<rparr>"
  let ?col = "ShowElems_column (Mat_new 0 0 (0 :: ushort)) fmt getTextSize 1 2147483647 ?s"
  have "\<forall>j a. \<exists>a'. ?col j a = Some (Inr a')"
    by (auto simp: ShowElems_column_def Mat_new_def Let_def)
  moreover have "sint (2147483647 :: cint) = 2 ^ 31 - 1" by simp
  ultimately have "for_loop ?col (- 1073741823) 2147483647 (Mat_new 2147483647 2147483647 (255, 255, 255)) = None"
    by (intro for_loop_INT_MAX_no_return) 
  then show ?thesis by (simp add: ShowElems_def)
qed

text \<open>
  Claim C2, as stated: for every radius r, the renderer iterates each offset i and j over
  the range from - r to 2 r + 1, that is 3 r + 2 offsets along each axis. This fails for
  large radii, since \<^verbatim>\<open>n_\<close> has 32 bits: with r = 1073741824 the bound
  \<^verbatim>\<open>int n = 2 * n_ + 1\<close> is - 2147483647, below the start - 1073741824, and the loop
  visits no offset at all. On a 1 by 1 depth image at point (0, 0) nothing is drawn,
  though the offset 0 is in the range of the claim.
\<close>

theorem ShowElems_offsets_counterexample:
  "for_loop (\<lambda>i acc. Some (Inr (acc @ [i]))) (- 1073741824) (2 * 1073741824 + 1) []
     = Some (Inr ([] :: cint list))
   \<and> ShowElems (Mat_new 1 1 (42 :: ushort)) elem2string 1 None (\<lambda>str. \<lparr>width = 0, height = 0\<rparr>)
       \<lparr>dr_n = 1073741824, dr_show = True, dr_selected = False, dr_point = \<lparr>pt_x = 0, pt_y = 0\<rparr>\<rparr>
     = Some (Inr (Some (Mat_new 2147483649 2147483649 (255, 255, 255))))
   \<and> - uint (1073741824 :: uint32) \<le> 0 \<and> 0 \<le> 2 * uint (1073741824 :: uint32) + 1"
  by (simp add: for_loop.simps ShowElems_def ShowElems_info_def)

text \<open>
  Claim C2, amended: for every radius r with 2 r + 1 < 2147483647 (that is r < 2^30 - 1),
  the loops of the renderer visit the offsets from - r to 2 r + 1 in order (not the
  symmetric range from - r to r), which are 3 r + 2 offsets: such a loop with any body,
  the loop over i of \<^verbatim>\<open>ShowElems\<close>, and its loop over j for each offset i whose column is
  inside the depth image.
\<close>

theorem ShowElems_offsets:
  assumes "uint (dr_n s) < 2 ^ 30 - 1"
  shows "for_loop body (- dr_n s) (2 * dr_n s + 1) acc = spec_visit body (spec_offsets (dr_n s)) acc
       \<and> ShowElems depth fmt space getinfo getTextSize s =
           (if \<not> dr_show s then Some (Inr None)
            else
              (case spec_visit (ShowElems_column depth fmt getTextSize space (2 * dr_n s + 1) s)
                      (spec_offsets (dr_n s))
                      (Mat_new (space * (2 * dr_n s + 1)) (space * (2 * dr_n s + 1)) (255, 255, 255)) of
                 None \<Rightarrow> None
               | Some (Inl e) \<Rightarrow> Some (Inl e)
               | Some (Inr im1) \<Rightarrow>
                   Some (Inr (Some (ShowElems_info depth getinfo getTextSize s im1)))))
       \<and> ShowElems_column depth fmt getTextSize space (2 * dr_n s + 1) s i im =
           (let x = pt_x (dr_point s) + i in
            if sint x < 0 \<or> sint (cols depth) \<le> sint x then Some (Inr im)
            else spec_visit (ShowElems_cell depth fmt getTextSize space s i x) (spec_offsets (dr_n s)) im)
       \<and> map sint (spec_offsets (dr_n s)) = [- uint (dr_n s) .. 2 * uint (dr_n s) + 1]
       \<and> length (spec_offsets (dr_n s)) = nat (3 * uint (dr_n s) + 2)"
  using assms
  by (simp add: for_loop_offsets sint_offsets length_offsets ShowElems_def ShowElems_column_def
      Let_def)

theorem ShowElems_offsets_witness:
  "for_loop (\<lambda>i acc. Some (Inr (acc @ [i]))) (- 3) (2 * 3 + 1) []
     = Some (Inr [- 3, - 2, - 1, 0, 1, 2, 3, 4, 5, 6, 7 :: cint])
   \<and> map sint (spec_offsets 3) = [- 3, - 2, - 1, 0, 1, 2, 3, 4, 5, 6, 7]
   \<and> length (spec_offsets 3) = 11"
proof -
  have h: "uint (dr_n (DepthRegion_new 3)) < 2 ^ 30 - 1" by (simp add: DepthRegion_new_def)
  have r: "dr_n (DepthRegion_new 3) = 3" by (simp add: DepthRegion_new_def)
  have o: "spec_offsets 3 = [- 3, - 2, - 1, 0, 1, 2, 3, 4, 5, 6, 7]"
    by (simp add: spec_offsets_def upto.simps)
  have "for_loop (\<lambda>i acc. Some (Inr (acc @ [i]))) (- 3) (2 * 3 + 1) ([] :: cint list)
      = spec_visit (\<lambda>i acc. Some (Inr (acc @ [i]))) (spec_offsets 3) []"
    using ShowElems_offsets [OF h, THEN conjunct1, of "\<lambda>i acc. Some (Inr (acc @ [i]))" "[]"]
    by (simp only: r)
  then have a: "for_loop (\<lambda>i acc. Some (Inr (acc @ [i]))) (- 3) (2 * 3 + 1) ([] :: cint list)
      = Some (Inr [- 3, - 2, - 1, 0, 1, 2, 3, 4, 5, 6, 7])"
    by (simp only: o spec_visit.simps option.case sum.case append.simps)
  have "map sint (spec_offsets 3) = [- uint (3 :: uint32) .. 2 * uint (3 :: uint32) + 1]
      \<and> length (spec_offsets 3) = nat (3 * uint (3 :: uint32) + 2)"
    using ShowElems_offsets [OF h, THEN conjunct2, THEN conjunct2, THEN conjunct2]
    by (simp only: r)
  then have b: "map sint (spec_offsets 3) = [- 3, - 2, - 1, 0, 1, 2, 3, 4, 5, 6, 7]
      \<and> length (spec_offsets 3) = 11"
    by (simp add: upto.simps)
  from a b show ?thesis by blast
qed

text \<open>
  Claim C6, as stated: for every visible selector with radius r and every cell size
  c > 0, the canvas is square with side exactly (2 r + 1) c. This fails when
  2 r + 1 or the product does not fit an \<^verbatim>\<open>int\<close>: with r = 1073741824 and c = 1 the
  canvas is created with \<^verbatim>\<open>rows\<close> and \<^verbatim>\<open>cols\<close> - 2147483647, where the claim gives
  2147483649.
\<close>

theorem ShowElems_canvas_counterexample:
  "ShowElems (Mat_new 1 1 (42 :: ushort)) elem2string 1 None (\<lambda>str. \<lparr>width = 0, height = 0\<rparr>)
       \<lparr>dr_n = 1073741824, dr_show = True, dr_selected = False, dr_point = \<lparr>pt_x = 0, pt_y = 0\<rparr>\<rparr>
     = Some (Inr (Some (Mat_new 2147483649 2147483649 (255, 255, 255))))
   \<and> sint (2147483649 :: cint) = - 2147483647
   \<and> 0 < sint (1 :: cint)
   \<and> (2 * uint (1073741824 :: uint32) + 1) * sint (1 :: cint) = 2147483649"
  by (simp add: for_loop.simps ShowElems_def ShowElems_info_def)

text \<open>
  Claim C6, amended: for every visible selector with radius r < 2^30 - 1 and every cell
  size c > 0 such that (2 r + 1) c < 2^31, \<^verbatim>\<open>ShowElems\<close> returns and shows a canvas
  that is square with side exactly (2 r + 1) c; for r = 3 and c = 80 the side is 560.
\<close>

theorem ShowElems_canvas:
  assumes "dr_show s" and "uint (dr_n s) < 2 ^ 30 - 1" and "0 < sint c"
    and "(2 * uint (dr_n s) + 1) * sint c < 2 ^ 31"
  shows "\<exists>im. ShowElems depth fmt c getinfo getTextSize s = Some (Inr (Some im))
           \<and> sint (rows im) = (2 * uint (dr_n s) + 1) * sint c
           \<and> sint (cols im) = (2 * uint (dr_n s) + 1) * sint c"
proof -
  from assms(1,2) obtain im
    where im: "ShowElems depth fmt c getinfo getTextSize s = Some (Inr (Some im))"
    using ShowElems_returns by blast
  then have sz: "rows im = c * (2 * dr_n s + 1)" "cols im = c * (2 * dr_n s + 1)"
    using ShowElems_size by blast+
  have n: "sint (2 * dr_n s + 1) = 2 * uint (dr_n s) + 1"
    using assms(2) by (intro sint_twice_plus_one) simp
  have "0 \<le> sint c * (2 * uint (dr_n s) + 1)" using assms(3) by simp
  then have lo: "- (2 ^ 31) \<le> sint c * sint (2 * dr_n s + 1)" using n by simp
  have hi: "sint c * sint (2 * dr_n s + 1) < 2 ^ 31" using assms(4) n by (simp add: mult.commute)
  have "sint (c * (2 * dr_n s + 1)) = (2 * uint (dr_n s) + 1) * sint c"
    using sint_times [OF lo hi] n by (simp add: mult.commute)
  with im sz show ?thesis by simp
qed

theorem ShowElems_canvas_witness:
  "\<exists>im. ShowElems (Mat_new 1 1 (42 :: ushort)) elem2string 80 None
          (\<lambda>str. \<lparr>width = 18, height = 10\<rparr>)
          \<lparr>dr_n = 3, dr_show = True, dr_selected = False, dr_point = \<lparr>pt_x = 0, pt_y = 0\<rparr>\<rparr>
        = Some (Inr (Some im)) \<and> sint (rows im) = 560 \<and> sint (cols im) = 560"
  using ShowElems_canvas [of
      "\<lparr>dr_n = 3, dr_show = True, dr_selected = False, dr_point = \<lparr>pt_x = 0, pt_y = 0\<rparr>\<rparr>" 80
      "Mat_new 1 1 (42 :: ushort)" elem2string None "\<lambda>str. \<lparr>width = 18, height = 10\<rparr>"]
  by simp

text \<open>
  Claim C8: when the sample coordinate computed for a cell, the point plus the offset
  (i, j), is outside the depth image, the renderer skips the cell: a column outside
  leaves the canvas as it was without running the loop over j, a row outside leaves the
  canvas as it was, and the depth image is never read outside its bounds (such a read
  would be the error \<open>OutOfRange\<close>, and no run of \<^verbatim>\<open>ShowElems\<close> ends in an error).
\<close>

theorem ShowElems_skips_outside:
  "(sint (pt_x (dr_point s) + i) < 0 \<or> sint (cols depth) \<le> sint (pt_x (dr_point s) + i) \<longrightarrow>
      ShowElems_column depth fmt getTextSize space n s i im = Some (Inr im))
   \<and> (sint (pt_y (dr_point s) + j) < 0 \<or> sint (rows depth) \<le> sint (pt_y (dr_point s) + j) \<longrightarrow>
      ShowElems_cell depth fmt getTextSize space s i x j im = Some (Inr im))
   \<and> (sint y < 0 \<or> sint (rows depth) \<le> sint y \<or> sint x < 0 \<or> sint (cols depth) \<le> sint x \<longrightarrow>
      Mat_at depth y x = Inl OutOfRange)
   \<and> ShowElems depth fmt space getinfo getTextSize s \<noteq> Some (Inl e)"
proof -
  have "ShowElems depth fmt space getinfo getTextSize s \<noteq> Some (Inl e)"
    by (rule ShowElems_no_error)
  then show ?thesis
    by (auto simp: ShowElems_column_def ShowElems_cell_def Mat_at_def Let_def)
qed

theorem ShowElems_skips_outside_witness:
  "ShowElems_column (Mat_new 1 1 (42 :: ushort)) elem2string (\<lambda>str. \<lparr>width = 18, height = 10\<rparr>) 80 7
      \<lparr>dr_n = 3, dr_show = True, dr_selected = False, dr_point = \<lparr>pt_x = 0, pt_y = 0\<rparr>\<rparr>
      (- 1) (Mat_new 560 560 (255, 255, 255))
     = Some (Inr (Mat_new 560 560 (255, 255, 255)))
   \<and> ShowElems_cell (Mat_new 1 1 (42 :: ushort)) elem2string (\<lambda>str. \<lparr>width = 18, height = 10\<rparr>) 80
      \<lparr>dr_n = 3, dr_show = True, dr_selected = False, dr_point = \<lparr>pt_x = 0, pt_y = 0\<rparr>\<rparr>
      0 0 1 (Mat_new 560 560 (255, 255, 255))
     = Some (Inr (Mat_new 560 560 (255, 255, 255)))
   \<and> Mat_at (Mat_new 1 1 (42 :: ushort)) 1 0 = Inl OutOfRange
   \<and> ShowElems (Mat_new 1 1 (42 :: ushort)) elem2string 80 None
      (\<lambda>str. \<lparr>width = 18, height = 10\<rparr>)
      \<lparr>dr_n = 3, dr_show = True, dr_selected = False, dr_point = \<lparr>pt_x = 0, pt_y = 0\<rparr>\<rparr>
     \<noteq> Some (Inl OutOfRange)"
proof -
  have a: "ShowElems_column (Mat_new 1 1 (42 :: ushort)) elem2string (\<lambda>str. \<lparr>width = 18, height = 10\<rparr>) 80 7
      \<lparr>dr_n = 3, dr_show = True, dr_selected = False, dr_point = \<lparr>pt_x = 0, pt_y = 0\<rparr>\<rparr>
      (- 1) (Mat_new 560 560 (255, 255, 255))
     = Some (Inr (Mat_new 560 560 (255, 255, 255)))"
    using ShowElems_skips_outside [where depth = "Mat_new 1 1 (42 :: ushort)" and fmt = elem2string
      and getTextSize = "\<lambda>str. \<lparr>width = 18, height = 10\<rparr>" and space = 80 and n = 7
      and s = "\<lparr>dr_n = 3, dr_show = True, dr_selected = False, dr_point = \<lparr>pt_x = 0, pt_y = 0\<rparr>\<rparr>"
      and i = "- 1" and j = 1 and x = 0 and y = 1 and im = "Mat_new 560 560 (255, 255, 255)"
      and getinfo = None and e = OutOfRange]
    by (simp add: Mat_new_def)
  have b: "ShowElems_cell (Mat_new 1 1 (42 :: ushort)) elem2string (\<lambda>str. \<lparr>width = 18, height = 10\<rparr>) 80
      \<lparr>dr_n = 3, dr_show = True, dr_selected = False, dr_point = \<lparr>pt_x = 0, pt_y = 0\<rparr>\<rparr>
      0 0 1 (Mat_new 560 560 (255, 255, 255))
     = Some (Inr (Mat_new 560 560 (255, 255, 255)))
   \<and> Mat_at (Mat_new 1 1 (42 :: ushort)) 1 0 = Inl OutOfRange
   \<and> ShowElems (Mat_new 1 1 (42 :: ushort)) elem2string 80 None
      (\<lambda>str. \<lparr>width = 18, height = 10\<rparr>)
      \<lparr>dr_n = 3, dr_show = True, dr_selected = False, dr_point = \<lparr>pt_x = 0, pt_y = 0\<rparr>\<rparr>
     \<noteq> Some (Inl OutOfRange)"
    using ShowElems_skips_outside [where depth = "Mat_new 1 1 (42 :: ushort)" and fmt = elem2string
      and getTextSize = "\<lambda>str. \<lparr>width = 18, height = 10\<rparr>" and space = 80 and n = 7
      and s = "\<lparr>dr_n = 3, dr_show = True, dr_selected = False, dr_point = \<lparr>pt_x = 0, pt_y = 0\<rparr>\<rparr>"
      and i = 0 and j = 1 and x = 0 and y = 1 and im = "Mat_new 560 560 (255, 255, 255)"
      and getinfo = None and e = OutOfRange]
    by (simp add: Mat_new_def)
  from a b show ?thesis by blast
qed

text \<open>
  Claim C9: when the visible flag \<^verbatim>\<open>show_\<close> is false, in particular on a freshly
  constructed selector, \<^verbatim>\<open>ShowElems\<close> returns without showing anything and
  \<^verbatim>\<open>DrawRect\<close> leaves the image unchanged.
\<close>

theorem hidden_no_output:
  "(\<not> dr_show s \<longrightarrow>
      ShowElems depth fmt elem_space getinfo getTextSize s = Some (Inr None)
      \<and> DrawRect img s = img)
   \<and> ShowElems depth fmt elem_space getinfo getTextSize (DepthRegion_new n) = Some (Inr None)
   \<and> DrawRect img (DepthRegion_new n) = img"
  by (simp add: ShowElems_def DrawRect_def DepthRegion_new_def)

theorem hidden_no_output_witness:
  "ShowElems (Mat_new 1 1 (42 :: ushort)) elem2string 80 (Some depth_info)
      (\<lambda>str. \<lparr>width = 18, height = 10\<rparr>)
      \<lparr>dr_n = 3, dr_show = False, dr_selected = False, dr_point = \<lparr>pt_x = 0, pt_y = 0\<rparr>\<rparr>
     = Some (Inr None)
   \<and> DrawRect (Mat_new 1 1 (42 :: ushort))
      \<lparr>dr_n = 3, dr_show = False, dr_selected = False, dr_point = \<lparr>pt_x = 0, pt_y = 0\<rparr>\<rparr>
     = Mat_new 1 1 42"
  using hidden_no_output [where
      s = "\<lparr>dr_n = 3, dr_show = False, dr_selected = False, dr_point = \<lparr>pt_x = 0, pt_y = 0\<rparr>\<rparr>"
      and depth = "Mat_new 1 1 (42 :: ushort)" and fmt = elem2string and elem_space = 80
      and getinfo = "Some depth_info" and getTextSize = "\<lambda>str. \<lparr>width = 18, height = 10\<rparr>"
      and img = "Mat_new 1 1 (42 :: ushort)" and n = 3]
  by simp

section \<open>The annotation rectangle\<close>

text \<open>
  Claim C7, as stated: for every visible selector, the rectangle is centred at the
  point with half-width max(radius, 1) + 1. This fails where the 32-bit arithmetic wraps
  around: with radius 4294967295 the half-width \<^verbatim>\<open>n\<close> is 0 and both corners are the
  point itself, where the claim gives 4294967296.
\<close>

theorem DrawRect_rectangle_counterexample:
  "dr_show \<lparr>dr_n = 4294967295, dr_show = True, dr_selected = False, dr_point = \<lparr>pt_x = 10, pt_y = 10\<rparr>\<rparr>
   \<and> DrawRect (Mat_new 20 20 (0 :: ushort))
        \<lparr>dr_n = 4294967295, dr_show = True, dr_selected = False, dr_point = \<lparr>pt_x = 10, pt_y = 10\<rparr>\<rparr>
     = rectangle (Mat_new 20 20 0) \<lparr>pt_x = 10, pt_y = 10\<rparr> \<lparr>pt_x = 10, pt_y = 10\<rparr> (0, 0, 255) 1
   \<and> max (uint (4294967295 :: uint32)) 1 + 1 = 4294967296"
  by (simp add: DrawRect_def rectangle_def)

text \<open>
  Claim C7, amended: for every visible selector with point P and radius r, let
  h = max(r, 1) + 1. If P.x - h, P.x + h, P.y - h and P.y + h are representable as 32-bit
  signed integers, \<^verbatim>\<open>DrawRect\<close> draws one rectangle of thickness 1 (an outline) with
  corners (P.x - h, P.y - h) and (P.x + h, P.y + h), of colour (0, 255, 0) when the
  selector is pinned and of the different colour (0, 0, 255) when it is not; h is 2 for
  radius 0 and 4 for radius 3.
\<close>

theorem DrawRect_rectangle:
  fixes s :: DepthRegion and h :: int
  assumes "dr_show s" and "h = max (uint (dr_n s)) 1 + 1"
    and "- (2 ^ 31) \<le> sint (pt_x (dr_point s)) - h" and "sint (pt_x (dr_point s)) + h < 2 ^ 31"
    and "- (2 ^ 31) \<le> sint (pt_y (dr_point s)) - h" and "sint (pt_y (dr_point s)) + h < 2 ^ 31"
  shows "DrawRect img s =
           rectangle img
             \<lparr>pt_x = pt_x (dr_point s) - word_of_int h, pt_y = pt_y (dr_point s) - word_of_int h\<rparr>
             \<lparr>pt_x = pt_x (dr_point s) + word_of_int h, pt_y = pt_y (dr_point s) + word_of_int h\<rparr>
             (if dr_selected s then (0, 255, 0) else (0, 0, 255)) 1
       \<and> sint (pt_x (dr_point s) - word_of_int h) = sint (pt_x (dr_point s)) - h
       \<and> sint (pt_y (dr_point s) - word_of_int h) = sint (pt_y (dr_point s)) - h
       \<and> sint (pt_x (dr_point s) + word_of_int h) = sint (pt_x (dr_point s)) + h
       \<and> sint (pt_y (dr_point s) + word_of_int h) = sint (pt_y (dr_point s)) + h
       \<and> (0, 255, 0) \<noteq> (0 :: nat, 0 :: nat, 255 :: nat)"
proof -
  let ?n0 = "if 1 < dr_n s then dr_n s else 1"
  have n0: "?n0 = word_of_int (max (uint (dr_n s)) 1)"
    by (auto simp: word_less_def max_def not_less)
  have n: "?n0 + 1 = (word_of_int h :: uint32)"
    using n0 assms(2) by simp
  have "0 \<le> h" using assms(2) by simp
  moreover have "h < 2 ^ 32"
    using assms(3,4) sint_bounds_32 [of "pt_x (dr_point s)"] by simp
  ultimately have u: "uint (word_of_int h :: uint32) = h"
    by (simp add: uint_word_of_int)
  have a: "DrawRect img s =
           rectangle img
             \<lparr>pt_x = pt_x (dr_point s) - word_of_int h, pt_y = pt_y (dr_point s) - word_of_int h\<rparr>
             \<lparr>pt_x = pt_x (dr_point s) + word_of_int h, pt_y = pt_y (dr_point s) + word_of_int h\<rparr>
             (if dr_selected s then (0, 255, 0) else (0, 0, 255)) 1"
    using assms(1) n by (simp add: DrawRect_def Let_def)
  have b: "sint (pt_x (dr_point s) - word_of_int h) = sint (pt_x (dr_point s)) - h"
    using sint_minus_uint [of "pt_x (dr_point s)" "word_of_int h"] assms(3) u by simp
  have c: "sint (pt_y (dr_point s) - word_of_int h) = sint (pt_y (dr_point s)) - h"
    using sint_minus_uint [of "pt_y (dr_point s)" "word_of_int h"] assms(5) u by simp
  have d: "sint (pt_x (dr_point s) + word_of_int h) = sint (pt_x (dr_point s)) + h"
    using sint_plus_uint [of "pt_x (dr_point s)" "word_of_int h"] assms(4) u by simp
  have e: "sint (pt_y (dr_point s) + word_of_int h) = sint (pt_y (dr_point s)) + h"
    using sint_plus_uint [of "pt_y (dr_point s)" "word_of_int h"] assms(6) u by simp
  from a b c d e show ?thesis by simp
qed

theorem DrawRect_rectangle_witness:
  "DrawRect (Mat_new 20 20 (0 :: ushort))
      \<lparr>dr_n = 0, dr_show = True, dr_selected = False, dr_point = \<lparr>pt_x = 10, pt_y = 10\<rparr>\<rparr>
     = rectangle (Mat_new 20 20 0) \<lparr>pt_x = 8, pt_y = 8\<rparr> \<lparr>pt_x = 12, pt_y = 12\<rparr> (0, 0, 255) 1
   \<and> DrawRect (Mat_new 20 20 (0 :: ushort))
      \<lparr>dr_n = 3, dr_show = True, dr_selected = True, dr_point = \<lparr>pt_x = 10, pt_y = 10\<rparr>\<rparr>
     = rectangle (Mat_new 20 20 0) \<lparr>pt_x = 6, pt_y = 6\<rparr> \<lparr>pt_x = 14, pt_y = 14\<rparr> (0, 255, 0) 1"
proof -
  have "DrawRect (Mat_new 20 20 (0 :: ushort))
      \<lparr>dr_n = 0, dr_show = True, dr_selected = False, dr_point = \<lparr>pt_x = 10, pt_y = 10\<rparr>\<rparr>
     = rectangle (Mat_new 20 20 0) \<lparr>pt_x = 8, pt_y = 8\<rparr> \<lparr>pt_x = 12, pt_y = 12\<rparr> (0, 0, 255) 1"
    using DrawRect_rectangle [of
        "\<lparr>dr_n = 0, dr_show = True, dr_selected = False, dr_point = \<lparr>pt_x = 10, pt_y = 10\<rparr>\<rparr>"
        2 "Mat_new 20 20 (0 :: ushort)"]
    by simp
  moreover have "DrawRect (Mat_new 20 20 (0 :: ushort))
      \<lparr>dr_n = 3, dr_show = True, dr_selected = True, dr_point = \<lparr>pt_x = 10, pt_y = 10\<rparr>\<rparr>
     = rectangle (Mat_new 20 20 0) \<lparr>pt_x = 6, pt_y = 6\<rparr> \<lparr>pt_x = 14, pt_y = 14\<rparr> (0, 255, 0) 1"
    using DrawRect_rectangle [of
        "\<lparr>dr_n = 3, dr_show = True, dr_selected = True, dr_point = \<lparr>pt_x = 10, pt_y = 10\<rparr>\<rparr>"
        4 "Mat_new 20 20 (0 :: ushort)"]
    by simp
  ultimately show ?thesis by blast
qed

end
